theory Spec2Isabelle
  imports Complex_Main "HOL-Library.Word"
begin

section \<open>Data model (types.ts)\<close>

text \<open>
  Strings the program only stores, displays or compares (identifiers, labels, messages)
  are \<open>string\<close>. The editor text, which \<open>handleRun\<close> inspects with
  \<open>code.trim()\<close>, is a list of UTF-16 code units, as a JavaScript string is.
\<close>

type_synonym js_string = "16 word list"

definition js :: "string \<Rightarrow> js_string" where
  "js s = map (\<lambda>c. of_nat (of_char c)) s"

datatype node_type = Value | Pointer | Root | Null

record GraphNode =
  nodeId :: string
  nodeLabel :: string
  nodeType :: "node_type option"
  color :: "string option"

record GraphEdge =
  source :: string
  target :: string
  edgeLabel :: "string option"

record VisualizationFrame =
  step :: int
  lineCode :: string
  explanation :: string
  nodes :: "GraphNode list"
  edges :: "GraphEdge list"

record AnalysisResult =
  frames :: "VisualizationFrame list"
  timeComplexity :: string
  spaceComplexity :: string
  conceptExplanation :: string
  detectedStructure :: string

datatype EditorMode = PYTHON | JAVASCRIPT | JAVA

section \<open>The App component: state\<close>

text \<open>
  The \<open>useState\<close> cells and the \<open>playbackRef\<close> of \<open>App\<close>, together with the part of
  the browser the playback effect talks to: the table of pending timeouts (identifier and
  delay in milliseconds) and the last identifier \<open>setTimeout\<close> handed out.
\<close>

record AppState =
  mode :: EditorMode
  code :: js_string
  analysis :: "AnalysisResult option"
  loading :: bool
  error :: "string option"
  currentFrameIndex :: int
  isPlaying :: bool
  isDarkMode :: bool
  playbackRef :: "nat option"
  timers :: "(nat \<times> nat) list"
  lastTimerId :: nat

definition CODE_TEMPLATES :: "EditorMode \<Rightarrow> js_string" where
  "CODE_TEMPLATES m = js (case m of
     PYTHON \<Rightarrow>
      ''class Node:\<newline>'' @
      ''    def __init__(self, val):\<newline>'' @
      ''        self.val = val\<newline>'' @
      ''        self.next = None\<newline>'' @
      ''\<newline>'' @
      ''# Step 1: Create Head\<newline>'' @
      ''head = Node(1)\<newline>'' @
      ''\<newline>'' @
      ''# Step 2: Create Second\<newline>'' @
      ''second = Node(2)\<newline>'' @
      ''head.next = second\<newline>'' @
      ''\<newline>'' @
      ''# Step 3: Create Cycle\<newline>'' @
      ''third = Node(3)\<newline>'' @
      ''second.next = third\<newline>'' @
      ''third.next = head \<newline>''
   | JAVASCRIPT \<Rightarrow>
      ''class Node {\<newline>'' @
      ''  constructor(val) {\<newline>'' @
      ''    this.val = val;\<newline>'' @
      ''    this.next = null;\<newline>'' @
      ''  }\<newline>'' @
      ''}\<newline>'' @
      ''\<newline>'' @
      ''// Step 1: Create Head\<newline>'' @
      ''const head = new Node(1);\<newline>'' @
      ''\<newline>'' @
      ''// Step 2: Create Second\<newline>'' @
      ''const second = new Node(2);\<newline>'' @
      ''head.next = second;\<newline>'' @
      ''\<newline>'' @
      ''// Step 3: Create Cycle\<newline>'' @
      ''const third = new Node(3);\<newline>'' @
      ''second.next = third;\<newline>'' @
      ''third.next = head;\<newline>''
   | JAVA \<Rightarrow>
      ''public class Main {\<newline>'' @
      ''    static class Node {\<newline>'' @
      ''        int val;\<newline>'' @
      ''        Node next;\<newline>'' @
      ''        \<newline>'' @
      ''        Node(int val) {\<newline>'' @
      ''            this.val = val;\<newline>'' @
      ''            this.next = null;\<newline>'' @
      ''        }\<newline>'' @
      ''    }\<newline>'' @
      ''\<newline>'' @
      ''    public static void main(String[] args) {\<newline>'' @
      ''        // Step 1: Create Head\<newline>'' @
      ''        Node head = new Node(1);\<newline>'' @
      ''\<newline>'' @
      ''        // Step 2: Create Second\<newline>'' @
      ''        Node second = new Node(2);\<newline>'' @
      ''        head.next = second;\<newline>'' @
      ''\<newline>'' @
      ''        // Step 3: Create Cycle\<newline>'' @
      ''        Node third = new Node(3);\<newline>'' @
      ''        second.next = third;\<newline>'' @
      ''        third.next = head;\<newline>'' @
      ''    }\<newline>'' @
      ''}\<newline>'')"

text \<open>
  The state of the first render: the \<open>useState\<close> initial values, \<open>playbackRef.current = null\<close>,
  no timeout of the component pending; \<open>n\<close> is where the browser's timer counter stands.
\<close>

definition initialState :: "nat \<Rightarrow> AppState" where
  "initialState n =
     \<lparr>mode = PYTHON, code = CODE_TEMPLATES PYTHON, analysis = None, loading = False,
      error = None, currentFrameIndex = 0, isPlaying = False, isDarkMode = True,
      playbackRef = None, timers = [], lastTimerId = n\<rparr>"

text \<open>\<open>(analysis?.frames.length || 0)\<close>: null analysis and an empty list both give 0.\<close>

definition framesLength :: "AnalysisResult option \<Rightarrow> int" where
  "framesLength an = (case an of None \<Rightarrow> 0 | Some a \<Rightarrow> int (length (frames a)))"

text \<open>
  The derived \<open>currentFrame\<close>: null without an analysis or with an empty frame list;
  \<open>frames[currentFrameIndex]\<close> is \<open>undefined\<close> outside the array, which is None here too.
\<close>

definition currentFrame :: "AppState \<Rightarrow> VisualizationFrame option" where
  "currentFrame s =
     (case analysis s of
        None \<Rightarrow> None
      | Some a \<Rightarrow>
          if length (frames a) > 0
          then (if 0 \<le> currentFrameIndex s \<and> currentFrameIndex s < int (length (frames a))
                then Some (frames a ! nat (currentFrameIndex s)) else None)
          else None)"

section \<open>Event handlers of App\<close>

definition handleNext :: "AppState \<Rightarrow> AppState" where
  "handleNext s =
     (case analysis s of
        None \<Rightarrow> s
      | Some a \<Rightarrow>
          if currentFrameIndex s < int (length (frames a)) - 1
          then s\<lparr>currentFrameIndex := currentFrameIndex s + 1, isPlaying := False\<rparr>
          else s)"

definition handlePrev :: "AppState \<Rightarrow> AppState" where
  "handlePrev s =
     (if currentFrameIndex s > 0
      then s\<lparr>currentFrameIndex := currentFrameIndex s - 1, isPlaying := False\<rparr>
      else s)"

text \<open>The argument is \<open>parseInt(e.target.value)\<close>, the integer the slider reports.\<close>

definition handleSliderChange :: "int \<Rightarrow> AppState \<Rightarrow> AppState" where
  "handleSliderChange v s = s\<lparr>currentFrameIndex := v, isPlaying := False\<rparr>"

definition togglePlay :: "AppState \<Rightarrow> AppState" where
  "togglePlay s =
     (let s' = (if currentFrameIndex s \<ge> framesLength (analysis s) - 1
                then s\<lparr>currentFrameIndex := 0\<rparr> else s)
      in s'\<lparr>isPlaying := \<not> isPlaying s\<rparr>)"

definition handleModeChange :: "EditorMode \<Rightarrow> AppState \<Rightarrow> AppState" where
  "handleModeChange newMode s =
     s\<lparr>mode := newMode, code := CODE_TEMPLATES newMode, analysis := None,
       currentFrameIndex := 0, isPlaying := False, error := None\<rparr>"

subsection \<open>handleRun\<close>

text \<open>
  \<open>String.prototype.trim\<close> strips the ECMAScript WhiteSpace and LineTerminator code
  points from both ends.
\<close>

definition isWhiteSpace :: "16 word \<Rightarrow> bool" where
  "isWhiteSpace c \<longleftrightarrow>
     c = 0x0009 \<or> c = 0x000A \<or> c = 0x000B \<or> c = 0x000C \<or> c = 0x000D \<or> c = 0x0020 \<or>
     c = 0x00A0 \<or> c = 0x1680 \<or> (0x2000 \<le> c \<and> c \<le> 0x200A) \<or> c = 0x2028 \<or> c = 0x2029 \<or>
     c = 0x202F \<or> c = 0x205F \<or> c = 0x3000 \<or> c = 0xFEFF"

definition trim :: "js_string \<Rightarrow> js_string" where
  "trim s = rev (dropWhile isWhiteSpace (rev (dropWhile isWhiteSpace s)))"

text \<open>
  What awaiting \<open>analyzeCode(code, mode)\<close> gives \<open>handleRun\<close>: the error thrown, or the
  result, an \<open>AnalysisResult\<close> as the declared type \<open>Promise<AnalysisResult>\<close> says.
\<close>

datatype js_error =
    AnalysisFailed
  | RequestFailed
  | SyntaxError
  | LibraryError string

type_synonym analysis_outcome = "js_error + AnalysisResult"

text \<open>The state updates of \<open>handleRun\<close> before the \<open>await\<close>.\<close>

definition handleRun_start :: "AppState \<Rightarrow> AppState" where
  "handleRun_start s =
     s\<lparr>loading := True, error := None, analysis := None, currentFrameIndex := 0,
       isPlaying := False\<rparr>"

text \<open>The rest of \<open>handleRun\<close> once the promise settles: try, catch, finally.\<close>

definition handleRun_settled :: "analysis_outcome \<Rightarrow> AppState \<Rightarrow> AppState" where
  "handleRun_settled r s =
     (case r of
        Inr result \<Rightarrow>
          (let s1 = s\<lparr>analysis := Some result\<rparr>;
               s2 = (if length (frames result) > 0 then s1\<lparr>currentFrameIndex := 0\<rparr> else s1)
           in s2\<lparr>loading := False\<rparr>)
      | Inl err \<Rightarrow>
          s\<lparr>error := Some ''Analysis failed. Please try again or check your API key.'',
            loading := False\<rparr>)"

text \<open>
  The whole handler, with nothing else happening during the \<open>await\<close>. \<open>analyze\<close> stands
  for the call \<open>analyzeCode(code, mode)\<close> with the service's answer to it; the second
  component lists the requests issued.
\<close>

definition handleRun ::
  "(js_string \<Rightarrow> EditorMode \<Rightarrow> analysis_outcome) \<Rightarrow> AppState
     \<Rightarrow> AppState \<times> (js_string \<times> EditorMode) list" where
  "handleRun analyze s =
     (if trim (code s) = [] then (s, [])
      else (handleRun_settled (analyze (code s) (mode s)) (handleRun_start s),
            [(code s, mode s)]))"

section \<open>The playback effect\<close>

text \<open>\<open>setTimeout\<close> hands out a fresh positive identifier; \<open>clearTimeout\<close> drops it.\<close>

definition setTimeout :: "nat \<Rightarrow> AppState \<Rightarrow> nat \<times> AppState" where
  "setTimeout delay s =
     (let t = Suc (lastTimerId s)
      in (t, s\<lparr>timers := timers s @ [(t, delay)], lastTimerId := t\<rparr>))"

definition clearTimeout :: "nat \<Rightarrow> AppState \<Rightarrow> AppState" where
  "clearTimeout t s = s\<lparr>timers := filter (\<lambda>p. fst p \<noteq> t) (timers s)\<rparr>"

text \<open>The body of the playback \<open>useEffect\<close>.\<close>

definition playbackEffect :: "AppState \<Rightarrow> AppState" where
  "playbackEffect s =
     (if isPlaying s \<and> analysis s \<noteq> None
         \<and> currentFrameIndex s < framesLength (analysis s) - 1
      then (let (t, s') = setTimeout 1500 s in s'\<lparr>playbackRef := Some t\<rparr>)
      else if currentFrameIndex s \<ge> framesLength (analysis s) - 1
      then s\<lparr>isPlaying := False\<rparr>
      else s)"

text \<open>The function the effect returns: \<open>if (playbackRef.current) clearTimeout(...)\<close>.\<close>

definition playbackCleanup :: "AppState \<Rightarrow> AppState" where
  "playbackCleanup s =
     (case playbackRef s of
        None \<Rightarrow> s
      | Some t \<Rightarrow> if t = 0 then s else clearTimeout t s)"

text \<open>The dependency array \<open>[isPlaying, currentFrameIndex, analysis]\<close>.\<close>

definition deps :: "AppState \<Rightarrow> bool \<times> int \<times> AnalysisResult option" where
  "deps s = (isPlaying s, currentFrameIndex s, analysis s)"

text \<open>
  After a render whose dependencies changed, React runs the previous cleanup and then the
  effect; a state update made by the effect causes another render, and so on until a
  render leaves the dependencies as they were.
\<close>

function settle :: "AppState \<Rightarrow> AppState" where
  "settle s =
     (let s' = playbackEffect (playbackCleanup s)
      in if deps s' = deps s then s' else settle s')"
  by pat_completeness auto
termination
proof (relation "measure (\<lambda>s. if isPlaying s then 1 else 0)")
  show "wf (measure (\<lambda>s::AppState. if isPlaying s then 1 else (0::nat)))"
    by simp
next
  fix s s'
  assume s': "s' = playbackEffect (playbackCleanup s)" and d: "deps s' \<noteq> deps s"
  have c: "deps (playbackCleanup s) = deps s"
    by (simp add: playbackCleanup_def clearTimeout_def deps_def split: option.splits)
  from d have "isPlaying s \<and> \<not> isPlaying s'"
    unfolding s' using c
    by (auto simp: playbackEffect_def deps_def setTimeout_def Let_def split: if_splits)
  then show "(s', s) \<in> measure (\<lambda>s. if isPlaying s then 1 else 0)"
    by simp
qed

declare settle.simps [simp del]

text \<open>The first render runs the effect with no cleanup before it.\<close>

definition mount :: "AppState \<Rightarrow> AppState" where
  "mount s = (let s' = playbackEffect s in if deps s' = deps s then s' else settle s')"

text \<open>An event handler runs, React renders, and the effect runs if a dependency changed.\<close>

definition dispatch :: "(AppState \<Rightarrow> AppState) \<Rightarrow> AppState \<Rightarrow> AppState" where
  "dispatch h s = (let s' = h s in if deps s' = deps s then s' else settle s')"

text \<open>The callback the effect gives to \<open>setTimeout\<close>.\<close>

definition advance :: "AppState \<Rightarrow> AppState" where
  "advance s = s\<lparr>currentFrameIndex := currentFrameIndex s + 1\<rparr>"

text \<open>A pending timeout fires: the browser drops it from its table and runs the callback.\<close>

definition timerFires :: "nat \<Rightarrow> AppState \<Rightarrow> AppState" where
  "timerFires t s =
     (if t \<in> fst ` set (timers s)
      then dispatch advance (s\<lparr>timers := filter (\<lambda>p. fst p \<noteq> t) (timers s)\<rparr>)
      else s)"

text \<open>
  What happens to the running application: a handler is called (the run button gives
  \<open>RunClicked\<close>, the part of \<open>handleRun\<close> before the \<open>await\<close>), the promise \<open>handleRun\<close>
  awaits settles, a timeout fires, the text area or the theme button is used. Each is
  followed by the render and, when a dependency changed, by the effect.
\<close>

datatype event =
    ModeChange EditorMode
  | RunClicked
  | RunSettled analysis_outcome
  | Next
  | Prev
  | SliderChange int
  | TogglePlay
  | TimerFired nat
  | CodeEdited js_string
  | ThemeToggled

fun handle :: "event \<Rightarrow> AppState \<Rightarrow> AppState" where
  "handle (ModeChange m) s = dispatch (handleModeChange m) s"
| "handle RunClicked s = (if trim (code s) = [] then s else dispatch handleRun_start s)"
| "handle (RunSettled r) s = dispatch (handleRun_settled r) s"
| "handle Next s = dispatch handleNext s"
| "handle Prev s = dispatch handlePrev s"
| "handle (SliderChange v) s = dispatch (handleSliderChange v) s"
| "handle TogglePlay s = dispatch togglePlay s"
| "handle (TimerFired t) s = timerFires t s"
| "handle (CodeEdited c) s = dispatch (\<lambda>s. s\<lparr>code := c\<rparr>) s"
| "handle ThemeToggled s = dispatch (\<lambda>s. s\<lparr>isDarkMode := \<not> isDarkMode s\<rparr>) s"

text \<open>
  The states the running application passes through: the mounted component, then events.
  Every handler may be called in every state. The slider is an
  \<open><input type="range" min="0" ...>\<close>, so the value it reports is not below 0; nothing
  else is assumed of it.
\<close>

fun deliverable :: "event \<Rightarrow> bool" where
  "deliverable (SliderChange v) = (0 \<le> v)"
| "deliverable _ = True"

inductive reachable :: "AppState \<Rightarrow> bool" where
  mounted: "reachable (mount (initialState n))"
| event: "reachable s \<Longrightarrow> deliverable e \<Longrightarrow> reachable (handle e s)"

text \<open>The sequencer operations of the specification, as the events that carry them out.\<close>

datatype nav = StepForward | StepBackward | Seek int

fun navEvent :: "nav \<Rightarrow> event" where
  "navEvent StepForward = Next"
| "navEvent StepBackward = Prev"
| "navEvent (Seek i) = SliderChange i"

definition navigate :: "nav list \<Rightarrow> AppState \<Rightarrow> AppState" where
  "navigate ops s = fold (\<lambda>op. handle (navEvent op)) ops s"

fun seeksWithin :: "int \<Rightarrow> nav \<Rightarrow> bool" where
  "seeksWithin n (Seek i) = (0 \<le> i \<and> i \<le> n - 1)"
| "seeksWithin n _ = True"

section \<open>analyzeCode (services/geminiService.ts)\<close>

text \<open>
  A JSON value as \<open>JSON.parse\<close> returns it; an object is the list of its own properties.
\<close>

datatype json =
    JNull
  | JBool bool
  | JNumber real
  | JString string
  | JArray "json list"
  | JObject "(string \<times> json) list"

text \<open>
  What the source can observe of the service's answer. The request either rejects
  (network, quota) or resolves to a response whose \<open>text\<close> is falsy (undefined or the empty
  string), or is a non-empty string that \<open>JSON.parse\<close> rejects, or one it parses to a value.
\<close>

datatype response_text = NoText | Unparseable | Parses json

datatype generate_outcome = Rejected | Responded response_text

text \<open>\<open>JSON.parse(response.text || "{}")\<close>; \<open>JSON.parse("{}")\<close> is the empty object.\<close>

definition parseResponseText :: "response_text \<Rightarrow> js_error + json" where
  "parseResponseText t =
     (case t of
        NoText \<Rightarrow> Inr (JObject [])
      | Unparseable \<Rightarrow> Inl SyntaxError
      | Parses v \<Rightarrow> Inr v)"

text \<open>The \<open>try\<close> block of \<open>analyzeCode\<close>: await the request, parse, return the value cast.\<close>

definition analyzeCode_try :: "generate_outcome \<Rightarrow> js_error + json" where
  "analyzeCode_try g =
     (case g of
        Rejected \<Rightarrow> Inl RequestFailed
      | Responded t \<Rightarrow> parseResponseText t)"

text \<open>The \<open>catch\<close> replaces whatever was thrown by the one error of the module.\<close>

definition analyzeCode :: "generate_outcome \<Rightarrow> js_error + json" where
  "analyzeCode g =
     (case analyzeCode_try g of
        Inl err \<Rightarrow> Inl AnalysisFailed
      | Inr result \<Rightarrow> Inr result)"

subsection \<open>ANALYSIS_SCHEMA\<close>

definition field :: "json \<Rightarrow> string \<Rightarrow> json option" where
  "field v k = (case v of JObject ps \<Rightarrow> map_of ps k | _ \<Rightarrow> None)"

definition isString :: "json option \<Rightarrow> bool" where
  "isString x = (case x of Some (JString _) \<Rightarrow> True | _ \<Rightarrow> False)"

definition isOptString :: "json option \<Rightarrow> bool" where
  "isOptString x = (case x of None \<Rightarrow> True | Some (JString _) \<Rightarrow> True | _ \<Rightarrow> False)"

definition isInteger :: "json option \<Rightarrow> bool" where
  "isInteger x = (case x of Some (JNumber r) \<Rightarrow> of_int (floor r) = r | _ \<Rightarrow> False)"

definition isArrayOf :: "(json \<Rightarrow> bool) \<Rightarrow> json option \<Rightarrow> bool" where
  "isArrayOf P x = (case x of Some (JArray vs) \<Rightarrow> list_all P vs | _ \<Rightarrow> False)"

definition isObject :: "json \<Rightarrow> bool" where
  "isObject v = (case v of JObject _ \<Rightarrow> True | _ \<Rightarrow> False)"

definition conformsNode :: "json \<Rightarrow> bool" where
  "conformsNode v \<longleftrightarrow>
     isObject v \<and> isString (field v ''id'') \<and> isString (field v ''label'') \<and>
     isOptString (field v ''type'') \<and> isOptString (field v ''color'')"

definition conformsEdge :: "json \<Rightarrow> bool" where
  "conformsEdge v \<longleftrightarrow>
     isObject v \<and> isString (field v ''source'') \<and> isString (field v ''target'') \<and>
     isOptString (field v ''label'')"

definition conformsFrame :: "json \<Rightarrow> bool" where
  "conformsFrame v \<longleftrightarrow>
     isObject v \<and> isInteger (field v ''step'') \<and> isString (field v ''lineCode'') \<and>
     isString (field v ''explanation'') \<and> isArrayOf conformsNode (field v ''nodes'') \<and>
     isArrayOf conformsEdge (field v ''edges'')"

definition conformsSchema :: "json \<Rightarrow> bool" where
  "conformsSchema v \<longleftrightarrow>
     isObject v \<and> isArrayOf conformsFrame (field v ''frames'') \<and>
     isString (field v ''timeComplexity'') \<and> isString (field v ''spaceComplexity'') \<and>
     isString (field v ''conceptExplanation'') \<and> isString (field v ''detectedStructure'')"

section \<open>The render effect of Visualizer\<close>

text \<open>
  What the effect leaves in the SVG: one \<open>line\<close> and one label group per element of
  \<open>links\<close>, one group per element of \<open>nodes\<close>, in order.
\<close>

record Drawing =
  lineElements :: "GraphEdge list"
  linkLabelTexts :: "string list"
  nodeElements :: "GraphNode list"

datatype render_result = Untouched | Cleared | Drawn Drawing

text \<open>
  The effect up to the end of the element creation. \<open>forceLink\<close> is the library's link
  force being given the simulation's nodes and \<open>links\<close> with the accessor \<open>d => d.id\<close>:
  None when it returns, the error when it throws. The library is not part of the
  repository, so its behaviour is a parameter. \<open>svgMounted\<close> is \<open>svgRef.current\<close> being set.
\<close>

definition renderEffect ::
  "(GraphNode list \<Rightarrow> GraphEdge list \<Rightarrow> js_error option) \<Rightarrow> bool \<Rightarrow> bool
     \<Rightarrow> GraphNode list \<Rightarrow> GraphEdge list \<Rightarrow> js_error + render_result" where
  "renderEffect forceLink loadingFlag svgMounted propNodes propEdges =
     (if loadingFlag \<or> \<not> svgMounted then Inr Untouched
      else if length propNodes = 0 \<and> length propEdges = 0 then Inr Cleared
      else
        (let links = map (\<lambda>d. d) propEdges;
             simNodes = map (\<lambda>d. d) propNodes
         in case forceLink simNodes links of
              Some err \<Rightarrow> Inl err
            | None \<Rightarrow>
                Inr (Drawn \<lparr>lineElements = links,
                            linkLabelTexts =
                              map (\<lambda>d. case edgeLabel d of None \<Rightarrow> [] | Some l \<Rightarrow> l) links,
                            nodeElements = simNodes\<rparr>)))"

text \<open>
  The library is d3-force. Its link force looks the source and the target of each link up
  among the nodes by the accessor, in order, and throws \<open>node not found: <id>\<close> on the
  first identifier no node has. That behaviour is written down here to have an instance
  of the parameter at hand; no statement about \<open>renderEffect\<close> depends on it.
\<close>

fun firstMissing :: "string list \<Rightarrow> GraphEdge list \<Rightarrow> string option" where
  "firstMissing ids [] = None"
| "firstMissing ids (l # ls) =
     (if source l \<notin> set ids then Some (source l)
      else if target l \<notin> set ids then Some (target l)
      else firstMissing ids ls)"

definition forceLinkById :: "GraphNode list \<Rightarrow> GraphEdge list \<Rightarrow> js_error option" where
  "forceLinkById ns ls =
     map_option (\<lambda>i. LibraryError (''node not found: '' @ i)) (firstMissing (map nodeId ns) ls)"

section \<open>Auxiliary notions for the proofs\<close>

text \<open>The timer table the cleanup leaves, and the condition under which the effect arms a timer.\<close>

definition clearedTimers :: "AppState \<Rightarrow> (nat \<times> nat) list" where
  "clearedTimers s =
     (case playbackRef s of
        None \<Rightarrow> timers s
      | Some t \<Rightarrow> if t = 0 then timers s else filter (\<lambda>p. fst p \<noteq> t) (timers s))"

definition shouldSchedule :: "AppState \<Rightarrow> bool" where
  "shouldSchedule s \<longleftrightarrow>
     isPlaying s \<and> analysis s \<noteq> None \<and> currentFrameIndex s < framesLength (analysis s) - 1"

text \<open>
  Every pending timeout is the one \<open>playbackRef\<close> points to; and the invariant of the settled
  states: the cursor is not negative, and a timeout is pending exactly while playing, the
  last one the effect armed, with the delay of 1500 ms.
\<close>

definition timersOwned :: "AppState \<Rightarrow> bool" where
  "timersOwned s \<longleftrightarrow> (\<forall>p \<in> set (timers s). 0 < fst p \<and> playbackRef s = Some (fst p))"

definition playbackInvariant :: "AppState \<Rightarrow> bool" where
  "playbackInvariant s \<longleftrightarrow>
     0 \<le> currentFrameIndex s \<and>
     (if isPlaying s
      then shouldSchedule s \<and> 0 < lastTimerId s \<and> playbackRef s = Some (lastTimerId s) \<and>
           timers s = [(lastTimerId s, 1500)]
      else timers s = [])"

text \<open>
  The state while a run is awaited, and the events that can happen meanwhile: the slider
  is not rendered while no analysis is loaded, and the promise settles once, at the end.
\<close>

definition awaiting :: "AppState \<Rightarrow> bool" where
  "awaiting s \<longleftrightarrow>
     playbackInvariant s \<and> analysis s = None \<and> currentFrameIndex s = 0 \<and> \<not> isPlaying s
     \<and> error s = None"

fun duringAwait :: "event \<Rightarrow> bool" where
  "duringAwait (SliderChange v) = False"
| "duringAwait (RunSettled r) = False"
| "duringAwait _ = True"

text \<open>An analysis result of \<open>n\<close> frames, and the application after receiving it.\<close>

definition sampleFrame :: "nat \<Rightarrow> VisualizationFrame" where
  "sampleFrame i = \<lparr>step = int i, lineCode = [], explanation = [], nodes = [], edges = []\<rparr>"

definition sampleAnalysis :: "nat \<Rightarrow> AnalysisResult" where
  "sampleAnalysis n =
     \<lparr>frames = map sampleFrame [0..<n], timeComplexity = ''O(n)'', spaceComplexity = ''O(n)'',
      conceptExplanation = ''Linked list'', detectedStructure = ''Linked List''\<rparr>"

definition loaded :: "nat \<Rightarrow> AppState" where
  "loaded n = handle (RunSettled (Inr (sampleAnalysis n))) (mount (initialState 0))"

text \<open>The same after the slider was moved to \<open>i\<close>, and after play was pressed.\<close>

definition viewing :: "nat \<Rightarrow> int \<Rightarrow> AppState" where
  "viewing n i = handle (SliderChange i) (loaded n)"

definition playing :: "nat \<Rightarrow> AppState" where
  "playing n = handle TogglePlay (loaded n)"

text \<open>A node, an edge between present nodes and an edge to an absent node.\<close>

definition sampleNode :: "string \<Rightarrow> GraphNode" where
  "sampleNode i = \<lparr>nodeId = i, nodeLabel = i, nodeType = None, color = None\<rparr>"

definition sampleEdge :: "string \<Rightarrow> string \<Rightarrow> GraphEdge" where
  "sampleEdge a b = \<lparr>source = a, target = b, edgeLabel = Some ''next''\<rparr>"

text \<open>A response that conforms to the schema.\<close>

definition sampleJson :: json where
  "sampleJson =
     JObject
      [(''frames'',
        JArray
         [JObject
           [(''step'', JNumber 0),
            (''lineCode'', JString ''head = Node(1)''),
            (''explanation'', JString ''Node 1 created''),
            (''nodes'', JArray [JObject [(''id'', JString ''n1''), (''label'', JString ''1'')]]),
            (''edges'', JArray [])]]),
       (''timeComplexity'', JString ''O(1)''),
       (''spaceComplexity'', JString ''O(1)''),
       (''conceptExplanation'', JString ''A single node.''),
       (''detectedStructure'', JString ''Linked List'')]"

section \<open>The effect in closed form\<close>

lemma playbackCleanup_eq: "playbackCleanup s = s\<lparr>timers := clearedTimers s\<rparr>"
  by (cases "playbackRef s") (simp_all add: playbackCleanup_def clearedTimers_def clearTimeout_def)

lemma playbackEffect_schedule:
  "shouldSchedule s \<Longrightarrow>
   playbackEffect s =
     s\<lparr>timers := timers s @ [(Suc (lastTimerId s), 1500)], lastTimerId := Suc (lastTimerId s),
       playbackRef := Some (Suc (lastTimerId s))\<rparr>"
  by (simp add: playbackEffect_def shouldSchedule_def setTimeout_def Let_def)

lemma playbackEffect_stop:
  "\<not> shouldSchedule s \<Longrightarrow> currentFrameIndex s \<ge> framesLength (analysis s) - 1 \<Longrightarrow>
   playbackEffect s = s\<lparr>isPlaying := False\<rparr>"
  by (simp add: playbackEffect_def shouldSchedule_def)

lemma playbackEffect_skip:
  "\<not> shouldSchedule s \<Longrightarrow> \<not> currentFrameIndex s \<ge> framesLength (analysis s) - 1 \<Longrightarrow>
   playbackEffect s = s"
  by (auto simp add: playbackEffect_def shouldSchedule_def)

lemma deps_playbackCleanup: "deps (playbackCleanup s) = deps s"
  by (simp add: playbackCleanup_eq deps_def)

lemma shouldSchedule_cleanup: "shouldSchedule (playbackCleanup s) = shouldSchedule s"
  by (simp add: playbackCleanup_eq shouldSchedule_def)

lemma clearedTimers_again:
  "clearedTimers (s\<lparr>timers := clearedTimers s, isPlaying := b\<rparr>) = clearedTimers s"
  by (cases "playbackRef s") (simp_all add: clearedTimers_def)

lemma settle_eq: "settle s = playbackEffect (playbackCleanup s)"
proof -
  let ?c = "playbackCleanup s"
  let ?s' = "playbackEffect ?c"
  show ?thesis
  proof (cases "deps ?s' = deps s")
    case True
    then show ?thesis by (subst settle.simps) (simp add: Let_def)
  next
    case False
    have no: "\<not> shouldSchedule ?c"
    proof
      assume "shouldSchedule ?c"
      then have "deps ?s' = deps ?c"
        by (simp add: playbackEffect_schedule deps_def)
      with False show False by (simp add: deps_playbackCleanup)
    qed
    have at_end: "currentFrameIndex ?c \<ge> framesLength (analysis ?c) - 1"
    proof (rule ccontr)
      assume "\<not> currentFrameIndex ?c \<ge> framesLength (analysis ?c) - 1"
      with no have "?s' = ?c" by (rule playbackEffect_skip)
      with False show False by (simp add: deps_playbackCleanup)
    qed
    from no at_end have stopped: "?s' = ?c\<lparr>isPlaying := False\<rparr>"
      by (rule playbackEffect_stop)
    have c': "playbackCleanup ?s' = ?s'"
      unfolding stopped by (simp add: playbackCleanup_eq clearedTimers_again)
    have "\<not> shouldSchedule ?s'"
      unfolding stopped by (simp add: shouldSchedule_def)
    moreover from at_end have "currentFrameIndex ?s' \<ge> framesLength (analysis ?s') - 1"
      unfolding stopped by simp
    ultimately have "playbackEffect ?s' = ?s'\<lparr>isPlaying := False\<rparr>"
      by (rule playbackEffect_stop)
    then have again: "playbackEffect (playbackCleanup ?s') = ?s'"
      unfolding c' unfolding stopped by simp
    have "settle ?s' = ?s'"
      by (subst settle.simps) (simp add: again Let_def)
    moreover have "settle s = settle ?s'"
      using False by (subst settle.simps) (simp add: Let_def)
    ultimately show ?thesis by simp
  qed
qed

lemma settle_schedule:
  assumes "shouldSchedule s"
  shows "settle s =
     s\<lparr>timers := clearedTimers s @ [(Suc (lastTimerId s), 1500)],
       lastTimerId := Suc (lastTimerId s), playbackRef := Some (Suc (lastTimerId s))\<rparr>"
proof -
  from assms have "shouldSchedule (playbackCleanup s)"
    by (simp add: shouldSchedule_cleanup)
  then show ?thesis
    unfolding settle_eq by (simp add: playbackEffect_schedule) (simp add: playbackCleanup_eq)
qed

lemma settle_stop:
  assumes "\<not> shouldSchedule s" and "currentFrameIndex s \<ge> framesLength (analysis s) - 1"
  shows "settle s = s\<lparr>timers := clearedTimers s, isPlaying := False\<rparr>"
proof -
  from assms have "\<not> shouldSchedule (playbackCleanup s)"
    and "currentFrameIndex (playbackCleanup s) \<ge> framesLength (analysis (playbackCleanup s)) - 1"
    by (simp_all add: shouldSchedule_cleanup) (simp add: playbackCleanup_eq)
  then have "playbackEffect (playbackCleanup s) = (playbackCleanup s)\<lparr>isPlaying := False\<rparr>"
    by (rule playbackEffect_stop)
  then show ?thesis
    unfolding settle_eq by (simp add: playbackCleanup_eq)
qed

lemma settle_skip:
  assumes "\<not> shouldSchedule s" and "\<not> currentFrameIndex s \<ge> framesLength (analysis s) - 1"
  shows "settle s = s\<lparr>timers := clearedTimers s\<rparr>"
proof -
  from assms have "\<not> shouldSchedule (playbackCleanup s)"
    and "\<not> currentFrameIndex (playbackCleanup s) \<ge> framesLength (analysis (playbackCleanup s)) - 1"
    by (simp_all add: shouldSchedule_cleanup) (simp add: playbackCleanup_eq)
  then have "playbackEffect (playbackCleanup s) = playbackCleanup s"
    by (rule playbackEffect_skip)
  then show ?thesis
    unfolding settle_eq by (simp add: playbackCleanup_eq)
qed

lemma settle_forms:
  "settle s = s\<lparr>timers := clearedTimers s @ [(Suc (lastTimerId s), 1500)],
       lastTimerId := Suc (lastTimerId s), playbackRef := Some (Suc (lastTimerId s))\<rparr>
       \<and> shouldSchedule s
   \<or> settle s = s\<lparr>timers := clearedTimers s, isPlaying := False\<rparr> \<and> \<not> shouldSchedule s
       \<and> currentFrameIndex s \<ge> framesLength (analysis s) - 1
   \<or> settle s = s\<lparr>timers := clearedTimers s\<rparr> \<and> \<not> shouldSchedule s
       \<and> \<not> currentFrameIndex s \<ge> framesLength (analysis s) - 1"
  using settle_schedule [of s] settle_stop [of s] settle_skip [of s] by blast

text \<open>What the effect leaves alone.\<close>

lemma settle_keeps:
  "currentFrameIndex (settle s) = currentFrameIndex s"
  "analysis (settle s) = analysis s"
  "mode (settle s) = mode s"
  "code (settle s) = code s"
  "loading (settle s) = loading s"
  "error (settle s) = error s"
  "isDarkMode (settle s) = isDarkMode s"
  using settle_forms [of s] by (elim disjE conjE, simp, simp, simp)+

lemma settle_isPlaying: "isPlaying (settle s) \<longleftrightarrow> shouldSchedule s \<or> isPlaying s \<and> analysis s = None \<and> currentFrameIndex s < - 1"
  using settle_forms [of s]
  by (elim disjE conjE) (auto simp: shouldSchedule_def framesLength_def)

lemma settle_paused:
  assumes "\<not> isPlaying s" and "timers s = []"
  shows "settle s = s"
proof -
  from assms(2) have ct: "clearedTimers s = []"
    by (cases "playbackRef s") (simp_all add: clearedTimers_def)
  from assms(1) have no: "\<not> shouldSchedule s"
    by (simp add: shouldSchedule_def)
  show ?thesis
  proof (cases "currentFrameIndex s \<ge> framesLength (analysis s) - 1")
    case True
    with no have "settle s = s\<lparr>timers := clearedTimers s, isPlaying := False\<rparr>"
      by (rule settle_stop)
    with assms ct show ?thesis by simp
  next
    case False
    with no have "settle s = s\<lparr>timers := clearedTimers s\<rparr>"
      by (rule settle_skip)
    with assms ct show ?thesis by simp
  qed
qed

lemma dispatch_keeps:
  "currentFrameIndex (dispatch h s) = currentFrameIndex (h s)"
  "analysis (dispatch h s) = analysis (h s)"
  "mode (dispatch h s) = mode (h s)"
  "code (dispatch h s) = code (h s)"
  "loading (dispatch h s) = loading (h s)"
  "error (dispatch h s) = error (h s)"
  "isDarkMode (dispatch h s) = isDarkMode (h s)"
  by (simp_all add: dispatch_def Let_def settle_keeps)

lemma dispatch_not_playing: "\<not> isPlaying (h s) \<Longrightarrow> \<not> isPlaying (dispatch h s)"
  by (simp add: dispatch_def Let_def settle_isPlaying shouldSchedule_def)

lemma dispatch_unchanged: "h s = s \<Longrightarrow> dispatch h s = s"
  by (simp add: dispatch_def)

lemma dispatch_changed:
  assumes "currentFrameIndex (h s) \<noteq> currentFrameIndex s"
  shows "dispatch h s = settle (h s)"
  using assms by (simp add: dispatch_def deps_def)

lemma dispatch_togglePlay: "dispatch togglePlay s = settle (togglePlay s)"
proof -
  have "isPlaying (togglePlay s) \<noteq> isPlaying s"
    by (simp add: togglePlay_def Let_def)
  then show ?thesis
    by (auto simp add: dispatch_def deps_def)
qed

lemma timerFires_eq:
  assumes "t \<in> fst ` set (timers s)"
  shows "timerFires t s = settle (advance (s\<lparr>timers := filter (\<lambda>p. fst p \<noteq> t) (timers s)\<rparr>))"
proof -
  let ?s0 = "s\<lparr>timers := filter (\<lambda>p. fst p \<noteq> t) (timers s)\<rparr>"
  have "deps (advance ?s0) \<noteq> deps ?s0"
    by (simp add: advance_def deps_def)
  then show ?thesis
    using assms by (simp add: timerFires_def dispatch_def)
qed

lemma mount_initialState: "mount (initialState n) = initialState n"
  by (simp add: mount_def playbackEffect_def initialState_def framesLength_def)

section \<open>The invariant of the settled states\<close>

lemma clearedTimers_owned:
  assumes "timersOwned s"
  shows "clearedTimers s = []"
proof (cases "timers s")
  case Nil
  then show ?thesis
    by (cases "playbackRef s") (simp_all add: clearedTimers_def)
next
  case (Cons p ps)
  with assms have ref: "playbackRef s = Some (fst p)" and pos: "0 < fst p"
    by (simp_all add: timersOwned_def)
  from assms ref have "\<forall>q \<in> set (timers s). fst q = fst p"
    by (simp add: timersOwned_def)
  then have "filter (\<lambda>q. fst q \<noteq> fst p) (timers s) = []"
    by (simp add: filter_empty_conv)
  with ref pos show ?thesis
    by (simp add: clearedTimers_def)
qed

lemma settle_invariant:
  assumes own: "timersOwned s" and nonneg: "0 \<le> currentFrameIndex s"
  shows "playbackInvariant (settle s)"
proof -
  note ct = clearedTimers_owned [OF own]
  consider (schedule) "shouldSchedule s"
    | (stop) "\<not> shouldSchedule s" "currentFrameIndex s \<ge> framesLength (analysis s) - 1"
    | (skip) "\<not> shouldSchedule s" "\<not> currentFrameIndex s \<ge> framesLength (analysis s) - 1"
    by blast
  then show ?thesis
  proof cases
    case schedule
    then show ?thesis
      using nonneg by (simp add: settle_schedule ct playbackInvariant_def shouldSchedule_def)
  next
    case stop
    then show ?thesis
      using nonneg by (simp add: settle_stop ct playbackInvariant_def)
  next
    case skip
    with nonneg have "\<not> isPlaying s"
      by (auto simp: shouldSchedule_def framesLength_def)
    with skip show ?thesis
      using nonneg by (simp add: settle_skip ct playbackInvariant_def)
  qed
qed

lemma invariant_timersOwned: "playbackInvariant s \<Longrightarrow> timersOwned s"
  by (cases "isPlaying s") (simp_all add: playbackInvariant_def timersOwned_def)

lemma dispatch_invariant:
  assumes inv: "playbackInvariant s"
    and same: "timers (h s) = timers s" "playbackRef (h s) = playbackRef s"
      "lastTimerId (h s) = lastTimerId s"
    and nonneg: "0 \<le> currentFrameIndex (h s)"
  shows "playbackInvariant (dispatch h s)"
proof (cases "deps (h s) = deps s")
  case True
  then have "dispatch h s = h s"
    by (simp add: dispatch_def)
  moreover from True inv same have "playbackInvariant (h s)"
    by (cases "isPlaying s") (simp_all add: playbackInvariant_def deps_def shouldSchedule_def)
  ultimately show ?thesis by simp
next
  case False
  then have "dispatch h s = settle (h s)"
    by (simp add: dispatch_def)
  moreover from invariant_timersOwned [OF inv] same have "timersOwned (h s)"
    by (simp add: timersOwned_def)
  ultimately show ?thesis
    using settle_invariant nonneg by simp
qed

lemma timerFires_invariant:
  assumes inv: "playbackInvariant s"
  shows "playbackInvariant (timerFires t s)"
proof (cases "t \<in> fst ` set (timers s)")
  case False
  with inv show ?thesis by (simp add: timerFires_def)
next
  case True
  let ?s0 = "s\<lparr>timers := filter (\<lambda>p. fst p \<noteq> t) (timers s)\<rparr>"
  from invariant_timersOwned [OF inv] have "timersOwned (advance ?s0)"
    by (simp add: timersOwned_def advance_def)
  moreover from inv have "0 \<le> currentFrameIndex (advance ?s0)"
    by (simp add: playbackInvariant_def advance_def)
  ultimately show ?thesis
    using settle_invariant timerFires_eq [OF True] by simp
qed

lemma handle_invariant:
  assumes inv: "playbackInvariant s" and ok: "deliverable e"
  shows "playbackInvariant (handle e s)"
proof -
  from inv have c: "0 \<le> currentFrameIndex s"
    by (simp add: playbackInvariant_def)
  show ?thesis
  proof (cases e)
    case (ModeChange m)
    then show ?thesis
      using dispatch_invariant [OF inv, of "handleModeChange m"]
      by (simp add: handleModeChange_def)
  next
    case RunClicked
    then show ?thesis
      using dispatch_invariant [OF inv, of handleRun_start] inv
      by (simp add: handleRun_start_def)
  next
    case (RunSettled r)
    then show ?thesis
      using dispatch_invariant [OF inv, of "handleRun_settled r"] c
      by (cases r) (simp_all add: handleRun_settled_def Let_def)
  next
    case Next
    then show ?thesis
      using dispatch_invariant [OF inv, of handleNext] c
      by (cases "analysis s") (simp_all add: handleNext_def)
  next
    case Prev
    then show ?thesis
      using dispatch_invariant [OF inv, of handlePrev] c
      by (simp add: handlePrev_def)
  next
    case (SliderChange v)
    then show ?thesis
      using dispatch_invariant [OF inv, of "handleSliderChange v"] ok
      by (simp add: handleSliderChange_def)
  next
    case TogglePlay
    then show ?thesis
      using dispatch_invariant [OF inv, of togglePlay] c
      by (simp add: togglePlay_def Let_def)
  next
    case (TimerFired t)
    then show ?thesis
      using timerFires_invariant [OF inv] by simp
  next
    case (CodeEdited c')
    then show ?thesis
      using dispatch_invariant [OF inv, of "\<lambda>s. s\<lparr>code := c'\<rparr>"] c by simp
  next
    case ThemeToggled
    then show ?thesis
      using dispatch_invariant [OF inv, of "\<lambda>s. s\<lparr>isDarkMode := \<not> isDarkMode s\<rparr>"] c by simp
  qed
qed

lemma reachable_invariant: "reachable s \<Longrightarrow> playbackInvariant s"
proof (induction rule: reachable.induct)
  case (mounted n)
  show ?case
    by (simp add: mount_initialState) (simp add: initialState_def playbackInvariant_def)
next
  case (event s e)
  then show ?case by (simp add: handle_invariant)
qed

lemma settle_timers_subset:
  assumes "timersOwned x"
  shows "set (timers (settle x)) \<subseteq> {(Suc (lastTimerId x), 1500)}"
  using settle_forms [of x] clearedTimers_owned [OF assms]
  by (elim disjE conjE) simp_all

lemma dispatch_cancels:
  assumes inv: "playbackInvariant s"
    and same: "timers (h s) = timers s" "playbackRef (h s) = playbackRef s"
      "lastTimerId (h s) = lastTimerId s"
    and moved: "currentFrameIndex (dispatch h s) \<noteq> currentFrameIndex s"
  shows "set (timers (dispatch h s)) \<subseteq> {(Suc (lastTimerId s), 1500)}"
proof -
  from moved have "currentFrameIndex (h s) \<noteq> currentFrameIndex s"
    by (simp add: dispatch_keeps)
  then have "dispatch h s = settle (h s)"
    by (rule dispatch_changed)
  moreover from invariant_timersOwned [OF inv] same have "timersOwned (h s)"
    by (simp add: timersOwned_def)
  ultimately show ?thesis
    using settle_timers_subset [of "h s"] same by simp
qed

lemma handle_cancels:
  assumes inv: "playbackInvariant s"
    and moved: "currentFrameIndex (handle e s) \<noteq> currentFrameIndex s"
  shows "set (timers (handle e s)) \<subseteq> {(Suc (lastTimerId s), 1500)}"
proof (cases e)
  case (ModeChange m)
  with moved show ?thesis
    using dispatch_cancels [OF inv, of "handleModeChange m"]
    by (simp add: handleModeChange_def)
next
  case RunClicked
  with moved show ?thesis
    using dispatch_cancels [OF inv, of handleRun_start]
    by (cases "trim (code s) = []") (simp_all add: handleRun_start_def)
next
  case (RunSettled r)
  with moved show ?thesis
    using dispatch_cancels [OF inv, of "handleRun_settled r"]
    by (cases r) (simp_all add: handleRun_settled_def Let_def)
next
  case Next
  with moved show ?thesis
    using dispatch_cancels [OF inv, of handleNext]
    by (cases "analysis s") (simp_all add: handleNext_def)
next
  case Prev
  with moved show ?thesis
    using dispatch_cancels [OF inv, of handlePrev]
    by (simp add: handlePrev_def)
next
  case (SliderChange v)
  with moved show ?thesis
    using dispatch_cancels [OF inv, of "handleSliderChange v"]
    by (simp add: handleSliderChange_def)
next
  case TogglePlay
  with moved show ?thesis
    using dispatch_cancels [OF inv, of togglePlay]
    by (simp add: togglePlay_def Let_def)
next
  case (TimerFired t)
  show ?thesis
  proof (cases "t \<in> fst ` set (timers s)")
    case False
    with moved TimerFired show ?thesis by (simp add: timerFires_def)
  next
    case True
    let ?s0 = "s\<lparr>timers := filter (\<lambda>p. fst p \<noteq> t) (timers s)\<rparr>"
    from invariant_timersOwned [OF inv] have "timersOwned (advance ?s0)"
      by (simp add: timersOwned_def advance_def)
    then have "set (timers (settle (advance ?s0))) \<subseteq> {(Suc (lastTimerId (advance ?s0)), 1500)}"
      by (rule settle_timers_subset)
    with TimerFired timerFires_eq [OF True] show ?thesis
      by (simp add: advance_def)
  qed
next
  case (CodeEdited c')
  with moved show ?thesis
    by (simp add: dispatch_keeps)
next
  case ThemeToggled
  with moved show ?thesis
    by (simp add: dispatch_keeps)
qed

lemma timer_fires_while_playing:
  assumes inv: "playbackInvariant s" and playing: "isPlaying s"
  shows "timers s = [(lastTimerId s, 1500)]"
    and "currentFrameIndex (handle (TimerFired (lastTimerId s)) s) = currentFrameIndex s + 1"
    and "isPlaying (handle (TimerFired (lastTimerId s)) s)
           \<longleftrightarrow> currentFrameIndex s + 1 < framesLength (analysis s) - 1"
proof -
  from inv playing have sched: "shouldSchedule s" and t: "timers s = [(lastTimerId s, 1500)]"
    by (simp_all add: playbackInvariant_def)
  let ?s1 = "advance (s\<lparr>timers := filter (\<lambda>p. fst p \<noteq> lastTimerId s) (timers s)\<rparr>)"
  from t have fired: "handle (TimerFired (lastTimerId s)) s = settle ?s1"
    by (simp add: timerFires_eq)
  show "timers s = [(lastTimerId s, 1500)]" by (rule t)
  show "currentFrameIndex (handle (TimerFired (lastTimerId s)) s) = currentFrameIndex s + 1"
    unfolding fired by (simp add: settle_keeps advance_def)
  from sched show "isPlaying (handle (TimerFired (lastTimerId s)) s)
           \<longleftrightarrow> currentFrameIndex s + 1 < framesLength (analysis s) - 1"
    unfolding fired by (auto simp add: settle_isPlaying shouldSchedule_def advance_def)
qed

section \<open>Facts about the handlers\<close>

lemma framesLength_simps:
  "framesLength None = 0"
  "framesLength (Some a) = int (length (frames a))"
  by (simp_all add: framesLength_def)

lemma togglePlay_at_end:
  assumes "currentFrameIndex s \<ge> framesLength (analysis s) - 1"
  shows "togglePlay s = s\<lparr>currentFrameIndex := 0, isPlaying := \<not> isPlaying s\<rparr>"
  using assms by (simp add: togglePlay_def)

lemma togglePlay_before_end:
  assumes "currentFrameIndex s < framesLength (analysis s) - 1"
  shows "togglePlay s = s\<lparr>isPlaying := \<not> isPlaying s\<rparr>"
  using assms by (simp add: togglePlay_def)

lemma trim_empty_iff: "trim s = [] \<longleftrightarrow> (\<forall>c \<in> set s. isWhiteSpace c)"
proof
  assume "trim s = []"
  then have all: "\<forall>c \<in> set (dropWhile isWhiteSpace s). isWhiteSpace c"
    by (simp add: trim_def)
  have "dropWhile isWhiteSpace s = []"
  proof (rule ccontr)
    assume ne: "dropWhile isWhiteSpace s \<noteq> []"
    then have "\<not> isWhiteSpace (hd (dropWhile isWhiteSpace s))"
      by (rule hd_dropWhile)
    moreover from ne have "hd (dropWhile isWhiteSpace s) \<in> set (dropWhile isWhiteSpace s)"
      by (rule hd_in_set)
    ultimately show False using all by blast
  qed
  then show "\<forall>c \<in> set s. isWhiteSpace c"
    by simp
next
  assume "\<forall>c \<in> set s. isWhiteSpace c"
  then show "trim s = []"
    by (auto simp: trim_def dest: set_dropWhileD)
qed

lemma trim_nonblank: "\<not> isWhiteSpace c \<Longrightarrow> trim (c # cs) \<noteq> []"
  by (simp add: trim_empty_iff)

lemma trim_CODE_TEMPLATES: "trim (CODE_TEMPLATES m) \<noteq> []"
proof -
  have "\<exists>c cs. CODE_TEMPLATES m = c # cs \<and> \<not> isWhiteSpace c"
    by (cases m) (simp_all add: CODE_TEMPLATES_def js_def isWhiteSpace_def)
  then show ?thesis
    by (auto simp: trim_nonblank)
qed

lemma handleRun_failure:
  assumes "trim (code s) \<noteq> []" and "analyze (code s) (mode s) = Inl e"
  shows "handleRun analyze s =
     (s\<lparr>loading := False,
        error := Some ''Analysis failed. Please try again or check your API key.'',
        analysis := None, currentFrameIndex := 0, isPlaying := False\<rparr>,
      [(code s, mode s)])"
  using assms by (simp add: handleRun_def handleRun_start_def handleRun_settled_def)

lemma nav_step:
  assumes a: "analysis s = Some a"
    and lo: "0 \<le> currentFrameIndex s" and hi: "currentFrameIndex s \<le> int (length (frames a)) - 1"
    and ok: "seeksWithin (int (length (frames a))) op"
  shows "analysis (handle (navEvent op) s) = Some a
    \<and> 0 \<le> currentFrameIndex (handle (navEvent op) s)
    \<and> currentFrameIndex (handle (navEvent op) s) \<le> int (length (frames a)) - 1"
proof (cases op)
  case StepForward
  with a lo hi show ?thesis
    by (simp add: dispatch_keeps handleNext_def)
next
  case StepBackward
  with a lo hi show ?thesis
    by (auto simp add: dispatch_keeps handlePrev_def)
next
  case (Seek i)
  with a ok show ?thesis
    by (simp add: dispatch_keeps handleSliderChange_def)
qed

lemma navigate_within:
  assumes "analysis s = Some a"
    and "0 \<le> currentFrameIndex s" and "currentFrameIndex s \<le> int (length (frames a)) - 1"
    and "\<forall>op \<in> set ops. seeksWithin (int (length (frames a))) op"
  shows "analysis (navigate ops s) = Some a
    \<and> 0 \<le> currentFrameIndex (navigate ops s)
    \<and> currentFrameIndex (navigate ops s) \<le> int (length (frames a)) - 1"
  using assms
proof (induction ops arbitrary: s)
  case Nil
  then show ?case by (simp add: navigate_def)
next
  case (Cons op ops)
  from Cons.prems have "seeksWithin (int (length (frames a))) op"
    by simp
  with Cons.prems(1-3) have step:
    "analysis (handle (navEvent op) s) = Some a
      \<and> 0 \<le> currentFrameIndex (handle (navEvent op) s)
      \<and> currentFrameIndex (handle (navEvent op) s) \<le> int (length (frames a)) - 1"
    by (rule nav_step)
  have "navigate (op # ops) s = navigate ops (handle (navEvent op) s)"
    by (simp add: navigate_def)
  moreover from Cons.prems(4) have "\<forall>op \<in> set ops. seeksWithin (int (length (frames a))) op"
    by simp
  ultimately show ?case
    using Cons.IH [of "handle (navEvent op) s"] step by simp
qed

lemma awaiting_timers: "awaiting s \<Longrightarrow> timers s = []"
  by (simp add: awaiting_def playbackInvariant_def)

lemma awaiting_handle:
  assumes w: "awaiting s" and e: "duringAwait e"
  shows "awaiting (handle e s)"
proof -
  from e have "deliverable e"
    by (cases e) simp_all
  with w have inv: "playbackInvariant (handle e s)"
    by (simp add: awaiting_def handle_invariant)
  from w have s: "analysis s = None" "currentFrameIndex s = 0" "\<not> isPlaying s" "error s = None"
    by (simp_all add: awaiting_def)
  have "analysis (handle e s) = None \<and> currentFrameIndex (handle e s) = 0
      \<and> \<not> isPlaying (handle e s) \<and> error (handle e s) = None"
  proof (cases e)
    case (ModeChange m)
    then show ?thesis
      by (simp add: dispatch_keeps dispatch_not_playing handleModeChange_def)
  next
    case RunClicked
    with s show ?thesis
      by (simp add: dispatch_keeps dispatch_not_playing handleRun_start_def)
  next
    case (RunSettled r)
    with e show ?thesis by simp
  next
    case Next
    with s show ?thesis
      by (simp add: dispatch_keeps dispatch_not_playing handleNext_def)
  next
    case Prev
    with s show ?thesis
      by (simp add: dispatch_keeps dispatch_not_playing handlePrev_def)
  next
    case (SliderChange v)
    with e show ?thesis by simp
  next
    case TogglePlay
    with s show ?thesis
      by (simp add: dispatch_togglePlay settle_keeps settle_isPlaying shouldSchedule_def
          togglePlay_def framesLength_simps)
  next
    case (TimerFired t)
    with s awaiting_timers [OF w] show ?thesis
      by (simp add: timerFires_def)
  next
    case (CodeEdited c)
    with s show ?thesis
      by (simp add: dispatch_keeps dispatch_not_playing)
  next
    case ThemeToggled
    with s show ?thesis
      by (simp add: dispatch_keeps dispatch_not_playing)
  qed
  with inv show ?thesis
    by (simp add: awaiting_def)
qed

lemma awaiting_fold:
  assumes "awaiting s" and "list_all duringAwait evs"
  shows "awaiting (fold handle evs s)"
  using assms by (induction evs arbitrary: s) (simp_all add: awaiting_handle)

lemma awaiting_RunClicked:
  assumes "reachable s" and "trim (code s) \<noteq> []"
  shows "awaiting (handle RunClicked s)"
proof -
  from assms(1) have "playbackInvariant (handle RunClicked s)"
    by (intro handle_invariant reachable_invariant) simp_all
  with assms(2) show ?thesis
    by (simp add: awaiting_def dispatch_keeps dispatch_not_playing handleRun_start_def)
qed

lemma run_with_events_between:
  assumes "reachable s" and "trim (code s) \<noteq> []" and "list_all duringAwait evs"
  shows "let s' = handle (RunSettled (Inr r)) (fold handle evs (handle RunClicked s))
       in analysis s' = Some r \<and> currentFrameIndex s' = 0 \<and> \<not> isPlaying s'
          \<and> error s' = None \<and> \<not> loading s'
          \<and> (frames r = [] \<longrightarrow> currentFrame s' = None)"
proof -
  let ?s1 = "fold handle evs (handle RunClicked s)"
  let ?s2 = "handle (RunSettled (Inr r)) ?s1"
  from assms have "awaiting ?s1"
    by (intro awaiting_fold awaiting_RunClicked)
  then have s1: "currentFrameIndex ?s1 = 0" "\<not> isPlaying ?s1" "error ?s1 = None"
    by (simp_all add: awaiting_def)
  then have "analysis ?s2 = Some r" "currentFrameIndex ?s2 = 0" "\<not> isPlaying ?s2"
    "error ?s2 = None" "\<not> loading ?s2"
    by (simp_all add: dispatch_keeps dispatch_not_playing handleRun_settled_def Let_def)
  moreover from this(1) have "frames r = [] \<longrightarrow> currentFrame ?s2 = None"
    by (simp add: currentFrame_def)
  ultimately show ?thesis
    by (simp add: Let_def)
qed

section \<open>Sample states\<close>

lemma frames_sampleAnalysis: "length (frames (sampleAnalysis n)) = n"
  by (simp add: sampleAnalysis_def)

lemma loaded_eq: "loaded n = (initialState 0)\<lparr>analysis := Some (sampleAnalysis n)\<rparr>"
proof -
  let ?s = "handleRun_settled (Inr (sampleAnalysis n)) (initialState 0)"
  have h: "?s = (initialState 0)\<lparr>analysis := Some (sampleAnalysis n)\<rparr>"
    by (simp add: handleRun_settled_def initialState_def Let_def)
  have "settle ?s = ?s"
    by (rule settle_paused) (simp_all add: h, simp_all add: initialState_def)
  then have "dispatch (handleRun_settled (Inr (sampleAnalysis n))) (initialState 0) = ?s"
    by (simp add: dispatch_def Let_def)
  then show ?thesis
    by (simp add: loaded_def mount_initialState h)
qed

lemma loaded_fields:
  "analysis (loaded n) = Some (sampleAnalysis n)"
  "currentFrameIndex (loaded n) = 0"
  "isPlaying (loaded n) = False"
  "timers (loaded n) = []"
  by (simp_all add: loaded_eq initialState_def)

lemma reachable_loaded: "reachable (loaded n)"
  unfolding loaded_def by (rule reachable.event [OF reachable.mounted]) simp

lemma code_loaded: "code (loaded n) = CODE_TEMPLATES PYTHON"
  by (simp add: loaded_eq initialState_def)

lemma viewing_eq: "viewing n i = (loaded n)\<lparr>currentFrameIndex := i\<rparr>"
proof -
  let ?s = "handleSliderChange i (loaded n)"
  have h: "?s = (loaded n)\<lparr>currentFrameIndex := i\<rparr>"
    by (simp add: handleSliderChange_def loaded_eq initialState_def)
  have "settle ?s = ?s"
    by (rule settle_paused) (simp_all add: h loaded_fields)
  then have "dispatch (handleSliderChange i) (loaded n) = ?s"
    by (simp add: dispatch_def Let_def)
  then show ?thesis
    by (simp add: viewing_def h)
qed

lemma viewing_fields:
  "analysis (viewing n i) = Some (sampleAnalysis n)"
  "currentFrameIndex (viewing n i) = i"
  "isPlaying (viewing n i) = False"
  "timers (viewing n i) = []"
  by (simp_all add: viewing_eq loaded_fields)

lemma reachable_viewing: "0 \<le> i \<Longrightarrow> reachable (viewing n i)"
  unfolding viewing_def by (rule reachable.event [OF reachable_loaded]) simp

lemma playing_fields:
  assumes "2 \<le> n"
  shows "isPlaying (playing n)" and "currentFrameIndex (playing n) = 0"
    and "analysis (playing n) = Some (sampleAnalysis n)"
proof -
  from assms have t: "togglePlay (loaded n) = (loaded n)\<lparr>isPlaying := True\<rparr>"
    by (simp add: togglePlay_before_end loaded_fields framesLength_simps frames_sampleAnalysis)
  show "currentFrameIndex (playing n) = 0"
    and "analysis (playing n) = Some (sampleAnalysis n)"
    by (simp_all add: playing_def dispatch_togglePlay settle_keeps t loaded_fields)
  from assms show "isPlaying (playing n)"
    by (simp add: playing_def dispatch_togglePlay settle_isPlaying shouldSchedule_def t
        loaded_fields framesLength_simps frames_sampleAnalysis)
qed

lemma reachable_playing: "reachable (playing n)"
  unfolding playing_def by (rule reachable.event [OF reachable_loaded]) simp

section \<open>Navigation\<close>

text \<open>
  C1, as the claim states it, fails: \<open>handleSliderChange\<close> stores the index it is given
  and clamps nothing, so a seek to 7 on three frames leaves the cursor at 7.
\<close>

theorem seek_out_of_range_counterexample:
  "\<not> (0 \<le> currentFrameIndex (navigate [Seek 7] (loaded 3))
      \<and> currentFrameIndex (navigate [Seek 7] (loaded 3))
          \<le> framesLength (analysis (loaded 3)) - 1)"
  by (simp add: navigate_def dispatch_keeps handleSliderChange_def loaded_fields
      framesLength_simps frames_sampleAnalysis)

text \<open>
  C1 as amended: with a non-empty frame sequence loaded and the cursor within
  \<open>[0, length - 1]\<close>, every sequence of stepForward, stepBackward and seek calls whose seek
  indices lie within \<open>[0, length - 1]\<close> (the range the slider is given) keeps the sequence
  loaded and the cursor within \<open>[0, length - 1]\<close>; every call returns a state. A seek does
  not clamp: it sets the cursor to the index it is given and playing to false.
\<close>

theorem cursor_stays_within_range:
  assumes "analysis s = Some a" and "frames a \<noteq> []"
    and "0 \<le> currentFrameIndex s" and "currentFrameIndex s \<le> int (length (frames a)) - 1"
    and "\<forall>op \<in> set ops. seeksWithin (int (length (frames a))) op"
  shows "analysis (navigate ops s) = Some a
    \<and> 0 \<le> currentFrameIndex (navigate ops s)
    \<and> currentFrameIndex (navigate ops s) \<le> int (length (frames a)) - 1
    \<and> (\<forall>i. currentFrameIndex (navigate [Seek i] s) = i \<and> \<not> isPlaying (navigate [Seek i] s))"
proof -
  have "currentFrameIndex (navigate [Seek i] s) = i \<and> \<not> isPlaying (navigate [Seek i] s)" for i
    by (simp add: navigate_def dispatch_keeps dispatch_not_playing handleSliderChange_def)
  with navigate_within [OF assms(1,3,4,5)] show ?thesis
    by simp
qed

theorem cursor_stays_within_range_witness:
  "analysis (loaded 3) = Some (sampleAnalysis 3) \<and> frames (sampleAnalysis 3) \<noteq> []
   \<and> 0 \<le> currentFrameIndex (loaded 3)
   \<and> currentFrameIndex (loaded 3) \<le> int (length (frames (sampleAnalysis 3))) - 1
   \<and> list_all (seeksWithin (int (length (frames (sampleAnalysis 3)))))
        [StepForward, Seek 2, StepForward, StepBackward, Seek 0, StepBackward]
   \<and> 0 \<le> currentFrameIndex
        (navigate [StepForward, Seek 2, StepForward, StepBackward, Seek 0, StepBackward] (loaded 3))
   \<and> currentFrameIndex
        (navigate [StepForward, Seek 2, StepForward, StepBackward, Seek 0, StepBackward] (loaded 3))
       \<le> 2"
proof -
  have ne: "frames (sampleAnalysis 3) \<noteq> []"
    using frames_sampleAnalysis [of 3] by auto
  show ?thesis
    using cursor_stays_within_range [OF loaded_fields(1) ne,
        of "[StepForward, Seek 2, StepForward, StepBackward, Seek 0, StepBackward]"] ne
    by (simp add: loaded_fields frames_sampleAnalysis)
qed

text \<open>
  C7: \<open>handleNext\<close> (stepForward) adds one to the cursor and sets playing to false when an
  analysis is loaded and the cursor is below the last index, and otherwise returns the
  state unchanged; \<open>handlePrev\<close> (stepBackward) subtracts one and sets playing to false
  when the cursor is above 0, and otherwise returns the state unchanged. Both are total:
  at the last index, respectively at index 0, the call is a no-op. The same holds after
  the render and the playback effect that follow the handler.
\<close>

theorem step_forward_backward:
  "(if analysis s \<noteq> None \<and> currentFrameIndex s < framesLength (analysis s) - 1
    then handleNext s = s\<lparr>currentFrameIndex := currentFrameIndex s + 1, isPlaying := False\<rparr>
       \<and> currentFrameIndex (handle Next s) = currentFrameIndex s + 1
       \<and> \<not> isPlaying (handle Next s)
    else handleNext s = s \<and> handle Next s = s)
   \<and> (if currentFrameIndex s > 0
    then handlePrev s = s\<lparr>currentFrameIndex := currentFrameIndex s - 1, isPlaying := False\<rparr>
       \<and> currentFrameIndex (handle Prev s) = currentFrameIndex s - 1
       \<and> \<not> isPlaying (handle Prev s)
    else handlePrev s = s \<and> handle Prev s = s)"
proof -
  have fwd: "handleNext s =
      (if analysis s \<noteq> None \<and> currentFrameIndex s < framesLength (analysis s) - 1
       then s\<lparr>currentFrameIndex := currentFrameIndex s + 1, isPlaying := False\<rparr> else s)"
    by (cases "analysis s") (simp_all add: handleNext_def framesLength_def)
  have bwd: "handlePrev s =
      (if currentFrameIndex s > 0
       then s\<lparr>currentFrameIndex := currentFrameIndex s - 1, isPlaying := False\<rparr> else s)"
    by (simp add: handlePrev_def)
  have "currentFrameIndex (handle Next s) = currentFrameIndex (handleNext s)"
    and "currentFrameIndex (handle Prev s) = currentFrameIndex (handlePrev s)"
    by (simp_all add: dispatch_keeps)
  moreover have "\<not> isPlaying (handleNext s) \<Longrightarrow> \<not> isPlaying (handle Next s)"
    and "\<not> isPlaying (handlePrev s) \<Longrightarrow> \<not> isPlaying (handle Prev s)"
    by (simp_all add: dispatch_not_playing)
  moreover have "handleNext s = s \<Longrightarrow> handle Next s = s"
    and "handlePrev s = s \<Longrightarrow> handle Prev s = s"
    by (simp_all add: dispatch_unchanged)
  ultimately show ?thesis
    using fwd bwd by simp
qed

theorem step_forward_backward_witness:
  "currentFrameIndex (handle Next (loaded 3)) = 1 \<and> \<not> isPlaying (handle Next (loaded 3))
   \<and> handle Prev (loaded 3) = loaded 3
   \<and> handle Next (viewing 3 2) = viewing 3 2
   \<and> currentFrameIndex (handle Prev (viewing 3 2)) = 1"
  using step_forward_backward [of "loaded 3"] step_forward_backward [of "viewing 3 2"]
  by (simp add: loaded_fields viewing_fields framesLength_simps frames_sampleAnalysis)

section \<open>Running an analysis\<close>

text \<open>
  C2, as the claim states it, fails: \<open>handleRun\<close> sets the analysis to null before it
  awaits the call, so after a failed run the three frames loaded before are gone.
\<close>

theorem run_failure_discards_previous_counterexample:
  "\<not> (analysis (fst (handleRun (\<lambda>c m. Inl AnalysisFailed) (loaded 3))) = analysis (loaded 3))"
proof -
  have "trim (code (loaded 3)) \<noteq> []"
    by (simp add: code_loaded trim_CODE_TEMPLATES)
  then have "analysis (fst (handleRun (\<lambda>c m. Inl AnalysisFailed) (loaded 3))) = None"
    by (simp add: handleRun_failure)
  then show ?thesis
    by (simp add: loaded_fields)
qed

text \<open>
  C2 as amended: when the code is not blank and the analysis call fails, \<open>handleRun\<close> issues
  the one request and ends in the state with the single error message set and loading
  false; the analysis loaded before is not kept: it was discarded when the run began, so
  the analysis is null, the cursor 0, playing false and there is no current frame. The
  same holds with the renders and the effect taken into account.
\<close>

theorem run_failure_state:
  assumes "trim (code s) \<noteq> []" and "analyze (code s) (mode s) = Inl e"
  shows "handleRun analyze s =
     (s\<lparr>loading := False,
        error := Some ''Analysis failed. Please try again or check your API key.'',
        analysis := None, currentFrameIndex := 0, isPlaying := False\<rparr>,
      [(code s, mode s)])
   \<and> (let s' = handle (RunSettled (Inl e)) (handle RunClicked s)
      in analysis s' = None \<and> currentFrameIndex s' = 0 \<and> \<not> isPlaying s' \<and> \<not> loading s'
         \<and> error s' = Some ''Analysis failed. Please try again or check your API key.''
         \<and> currentFrame s' = None)"
proof -
  let ?s1 = "handle RunClicked s"
  let ?s2 = "handle (RunSettled (Inl e)) ?s1"
  from assms(1) have s1: "analysis ?s1 = None" "currentFrameIndex ?s1 = 0" "\<not> isPlaying ?s1"
    by (simp_all add: dispatch_keeps dispatch_not_playing handleRun_start_def)
  then have "analysis ?s2 = None" "currentFrameIndex ?s2 = 0" "\<not> isPlaying ?s2" "\<not> loading ?s2"
    "error ?s2 = Some ''Analysis failed. Please try again or check your API key.''"
    by (simp_all add: dispatch_keeps dispatch_not_playing handleRun_settled_def)
  moreover from this(1) have "currentFrame ?s2 = None"
    by (simp add: currentFrame_def)
  ultimately show ?thesis
    using handleRun_failure [of s analyze e] assms by (simp add: Let_def)
qed

theorem run_failure_state_witness:
  "trim (code (playing 3)) \<noteq> []
   \<and> handleRun (\<lambda>c m. Inl AnalysisFailed) (playing 3) =
     ((playing 3)\<lparr>loading := False,
        error := Some ''Analysis failed. Please try again or check your API key.'',
        analysis := None, currentFrameIndex := 0, isPlaying := False\<rparr>,
      [(code (playing 3), mode (playing 3))])
   \<and> analysis (handle (RunSettled (Inl AnalysisFailed)) (handle RunClicked (playing 3))) = None"
proof -
  have "code (playing 3) = CODE_TEMPLATES PYTHON"
    by (simp add: playing_def dispatch_keeps togglePlay_def Let_def code_loaded)
  then have ne: "trim (code (playing 3)) \<noteq> []"
    by (simp add: trim_CODE_TEMPLATES)
  show ?thesis
    using run_failure_state [of "playing 3" "\<lambda>c m. Inl AnalysisFailed" AnalysisFailed] ne
    by (simp add: Let_def)
qed

text \<open>
  C8: whatever the state before (any cursor, playing or not), a run on code that is not
  blank whose analysis call returns \<open>r\<close> ends with \<open>r\<close> loaded, the cursor at 0 and playing
  false, without error; when \<open>r\<close> has no frames there is no current frame. A language-mode
  switch ends with no analysis, the cursor at 0, playing false and no current frame.
  Stated for the handler alone, for the events with their renders and effect, and, from
  a state the application reaches, with any events that can happen during the await.
\<close>

theorem load_resets_cursor_and_playing:
  "(trim (code s) \<noteq> [] \<longrightarrow> analyze (code s) (mode s) = Inr r \<longrightarrow>
      (let s' = fst (handleRun analyze s)
       in analysis s' = Some r \<and> currentFrameIndex s' = 0 \<and> \<not> isPlaying s'
          \<and> error s' = None \<and> \<not> loading s'
          \<and> (frames r = [] \<longrightarrow> currentFrame s' = None)))
   \<and> (trim (code s) \<noteq> [] \<longrightarrow>
      (let s' = handle (RunSettled (Inr r)) (handle RunClicked s)
       in analysis s' = Some r \<and> currentFrameIndex s' = 0 \<and> \<not> isPlaying s'
          \<and> error s' = None \<and> \<not> loading s'
          \<and> (frames r = [] \<longrightarrow> currentFrame s' = None)))
   \<and> (reachable s \<longrightarrow> trim (code s) \<noteq> [] \<longrightarrow> list_all duringAwait evs \<longrightarrow>
      (let s' = handle (RunSettled (Inr r)) (fold handle evs (handle RunClicked s))
       in analysis s' = Some r \<and> currentFrameIndex s' = 0 \<and> \<not> isPlaying s'
          \<and> error s' = None \<and> \<not> loading s'
          \<and> (frames r = [] \<longrightarrow> currentFrame s' = None)))
   \<and> (let s' = handle (ModeChange m) s
      in analysis s' = None \<and> currentFrameIndex s' = 0 \<and> \<not> isPlaying s'
         \<and> currentFrame s' = None)"
proof (intro conjI impI)
  assume ne: "trim (code s) \<noteq> []" and r: "analyze (code s) (mode s) = Inr r"
  then show "let s' = fst (handleRun analyze s)
       in analysis s' = Some r \<and> currentFrameIndex s' = 0 \<and> \<not> isPlaying s'
          \<and> error s' = None \<and> \<not> loading s'
          \<and> (frames r = [] \<longrightarrow> currentFrame s' = None)"
    by (simp add: handleRun_def handleRun_start_def handleRun_settled_def Let_def currentFrame_def)
next
  assume ne: "trim (code s) \<noteq> []"
  let ?s1 = "handle RunClicked s"
  let ?s2 = "handle (RunSettled (Inr r)) ?s1"
  from ne have s1: "currentFrameIndex ?s1 = 0" "\<not> isPlaying ?s1" "error ?s1 = None"
    by (simp_all add: dispatch_keeps dispatch_not_playing handleRun_start_def)
  then have "analysis ?s2 = Some r" "currentFrameIndex ?s2 = 0" "\<not> isPlaying ?s2"
    "error ?s2 = None" "\<not> loading ?s2"
    by (simp_all add: dispatch_keeps dispatch_not_playing handleRun_settled_def Let_def)
  moreover from this(1) have "frames r = [] \<longrightarrow> currentFrame ?s2 = None"
    by (simp add: currentFrame_def)
  ultimately show "let s' = ?s2
       in analysis s' = Some r \<and> currentFrameIndex s' = 0 \<and> \<not> isPlaying s'
          \<and> error s' = None \<and> \<not> loading s'
          \<and> (frames r = [] \<longrightarrow> currentFrame s' = None)"
    by (simp add: Let_def)
next
  assume "reachable s" and "trim (code s) \<noteq> []" and "list_all duringAwait evs"
  then show "let s' = handle (RunSettled (Inr r)) (fold handle evs (handle RunClicked s))
       in analysis s' = Some r \<and> currentFrameIndex s' = 0 \<and> \<not> isPlaying s'
          \<and> error s' = None \<and> \<not> loading s'
          \<and> (frames r = [] \<longrightarrow> currentFrame s' = None)"
    by (rule run_with_events_between)
next
  let ?s' = "handle (ModeChange m) s"
  have "analysis ?s' = None" "currentFrameIndex ?s' = 0" "\<not> isPlaying ?s'"
    by (simp_all add: dispatch_keeps dispatch_not_playing handleModeChange_def)
  moreover from this(1) have "currentFrame ?s' = None"
    by (simp add: currentFrame_def)
  ultimately show "let s' = ?s'
      in analysis s' = None \<and> currentFrameIndex s' = 0 \<and> \<not> isPlaying s'
         \<and> currentFrame s' = None"
    by (simp add: Let_def)
qed

theorem load_resets_cursor_and_playing_witness:
  "trim (code (playing 3)) \<noteq> [] \<and> reachable (playing 3) \<and> isPlaying (playing 3)
   \<and> list_all duringAwait [TogglePlay, Next, ThemeToggled]
   \<and> analysis (fst (handleRun (\<lambda>c m. Inr (sampleAnalysis 0)) (playing 3)))
       = Some (sampleAnalysis 0)
   \<and> currentFrameIndex (fst (handleRun (\<lambda>c m. Inr (sampleAnalysis 0)) (playing 3))) = 0
   \<and> \<not> isPlaying (fst (handleRun (\<lambda>c m. Inr (sampleAnalysis 0)) (playing 3)))
   \<and> frames (sampleAnalysis 0) = []
   \<and> currentFrame (fst (handleRun (\<lambda>c m. Inr (sampleAnalysis 0)) (playing 3))) = None
   \<and> \<not> isPlaying (handle (RunSettled (Inr (sampleAnalysis 0))) (handle RunClicked (playing 3)))
   \<and> currentFrameIndex
        (handle (RunSettled (Inr (sampleAnalysis 0)))
          (fold handle [TogglePlay, Next, ThemeToggled] (handle RunClicked (playing 3)))) = 0
   \<and> currentFrameIndex (handle (ModeChange JAVA) (viewing 3 2)) = 0"
proof -
  have "code (playing 3) = CODE_TEMPLATES PYTHON"
    by (simp add: playing_def dispatch_keeps togglePlay_def Let_def code_loaded)
  then have ne: "trim (code (playing 3)) \<noteq> []"
    by (simp add: trim_CODE_TEMPLATES)
  have empty: "frames (sampleAnalysis 0) = []"
    using frames_sampleAnalysis [of 0] by simp
  have between: "list_all duringAwait [TogglePlay, Next, ThemeToggled]"
    by simp
  note inst = load_resets_cursor_and_playing
        [of "playing 3" "\<lambda>c m. Inr (sampleAnalysis 0)" "sampleAnalysis 0"
          "[TogglePlay, Next, ThemeToggled]" JAVA]
  from inst ne have handler:
    "analysis (fst (handleRun (\<lambda>c m. Inr (sampleAnalysis 0)) (playing 3)))
       = Some (sampleAnalysis 0)
     \<and> currentFrameIndex (fst (handleRun (\<lambda>c m. Inr (sampleAnalysis 0)) (playing 3))) = 0
     \<and> \<not> isPlaying (fst (handleRun (\<lambda>c m. Inr (sampleAnalysis 0)) (playing 3)))
     \<and> currentFrame (fst (handleRun (\<lambda>c m. Inr (sampleAnalysis 0)) (playing 3))) = None"
    using empty by (simp add: Let_def)
  from inst ne have events:
    "\<not> isPlaying (handle (RunSettled (Inr (sampleAnalysis 0))) (handle RunClicked (playing 3)))"
    by (simp add: Let_def)
  from inst ne between reachable_playing [of 3] have interleaved:
    "currentFrameIndex
        (handle (RunSettled (Inr (sampleAnalysis 0)))
          (fold handle [TogglePlay, Next, ThemeToggled] (handle RunClicked (playing 3)))) = 0"
    unfolding Let_def by blast
  have "currentFrameIndex (handle (ModeChange JAVA) (viewing 3 2)) = 0"
    using load_resets_cursor_and_playing
        [of "viewing 3 2" "\<lambda>c m. Inr (sampleAnalysis 0)" "sampleAnalysis 0" "[]" JAVA]
    by (simp add: Let_def)
  with handler events interleaved ne empty between reachable_playing [of 3] playing_fields(1) [of 3]
  show ?thesis
    by simp
qed

text \<open>
  C10: \<open>handleRun\<close> on source code that is empty or only whitespace does nothing: no
  request is issued (the list of requests is empty) and the state, every field of it, is
  the one before; the same holds with the render and the effect taken into account.
\<close>

theorem run_blank_code_noop:
  assumes "\<forall>c \<in> set (code s). isWhiteSpace c"
  shows "handleRun analyze s = (s, []) \<and> handle RunClicked s = s"
  using assms by (simp add: handleRun_def trim_empty_iff)

theorem run_blank_code_noop_witness:
  "handleRun (\<lambda>c m. Inr (sampleAnalysis 2)) (loaded 3\<lparr>code := [0x20, 0x09, 0x0A]\<rparr>)
     = (loaded 3\<lparr>code := [0x20, 0x09, 0x0A]\<rparr>, [])
   \<and> handle RunClicked (loaded 3\<lparr>code := [0x20, 0x09, 0x0A]\<rparr>)
     = loaded 3\<lparr>code := [0x20, 0x09, 0x0A]\<rparr>
   \<and> handle RunClicked (loaded 3\<lparr>code := []\<rparr>) = loaded 3\<lparr>code := []\<rparr>"
  using run_blank_code_noop [of "loaded 3\<lparr>code := [0x20, 0x09, 0x0A]\<rparr>"
      "\<lambda>c m. Inr (sampleAnalysis 2)"]
    run_blank_code_noop [of "loaded 3\<lparr>code := []\<rparr>" "\<lambda>c m. Inr (sampleAnalysis 2)"]
  by (simp add: isWhiteSpace_def)

section \<open>The analysis call\<close>

text \<open>
  C4, as the claim states it, fails: a response whose text is the JSON object \<open>{}\<close> has
  no frame list and does not conform to the schema, and \<open>analyzeCode\<close> returns it.
\<close>

theorem analyzeCode_returns_partial_counterexample:
  "\<not> (field (JObject []) ''frames'' = None \<and> \<not> conformsSchema (JObject [])
       \<longrightarrow> analyzeCode (Responded (Parses (JObject []))) = Inl AnalysisFailed)"
  by (simp add: analyzeCode_def analyzeCode_try_def parseResponseText_def field_def
      conformsSchema_def isArrayOf_def)

text \<open>
  C4 as amended: \<open>analyzeCode\<close> fails only with the single opaque error, and it does so
  exactly when the request is rejected or the response text is not parseable JSON.
  Otherwise it returns the value the text parses to (the empty object when the text is
  missing or empty) as it is, checked against nothing: a complete Analysis Result when the
  content conforms to the schema, and whatever else the content is when it does not.
\<close>

theorem analyzeCode_outcomes:
  "(analyzeCode g = Inl e
      \<longleftrightarrow> e = AnalysisFailed \<and> (g = Rejected \<or> g = Responded Unparseable))
   \<and> (analyzeCode g = Inr v
      \<longleftrightarrow> g = Responded NoText \<and> v = JObject [] \<or> g = Responded (Parses v))"
proof (cases g)
  case Rejected
  then show ?thesis
    by (auto simp: analyzeCode_def analyzeCode_try_def)
next
  case (Responded t)
  then show ?thesis
    by (cases t) (auto simp: analyzeCode_def analyzeCode_try_def parseResponseText_def)
qed

theorem analyzeCode_outcomes_witness:
  "analyzeCode (Responded (Parses sampleJson)) = Inr sampleJson \<and> conformsSchema sampleJson
   \<and> analyzeCode (Responded Unparseable) = Inl AnalysisFailed
   \<and> analyzeCode Rejected = Inl AnalysisFailed
   \<and> analyzeCode (Responded NoText) = Inr (JObject [])"
proof -
  have "conformsSchema sampleJson"
    by (simp add: sampleJson_def conformsSchema_def conformsFrame_def conformsNode_def
        conformsEdge_def isObject_def isArrayOf_def isString_def isOptString_def isInteger_def
        field_def)
  then show ?thesis
    using analyzeCode_outcomes [of "Responded (Parses sampleJson)" AnalysisFailed sampleJson]
      analyzeCode_outcomes [of "Responded Unparseable" AnalysisFailed sampleJson]
      analyzeCode_outcomes [of Rejected AnalysisFailed sampleJson]
      analyzeCode_outcomes [of "Responded NoText" AnalysisFailed "JObject []"]
    by simp
qed

section \<open>Rendering a frame\<close>

text \<open>
  C3, as the claim states it, fails: with the one node \<open>n1\<close> and an edge from \<open>n1\<close> to the
  absent \<open>n2\<close>, the effect never ends with the node drawn and the edge left out, however
  the link force behaves.
\<close>

theorem dangling_edge_not_excluded_counterexample:
  "\<not> (\<exists>forceLink d.
        renderEffect forceLink False True [sampleNode ''n1''] [sampleEdge ''n1'' ''n2'']
          = Inr (Drawn d)
        \<and> lineElements d = [] \<and> nodeElements d = [sampleNode ''n1''])"
  by (auto simp: renderEffect_def Let_def split: option.splits)

text \<open>
  C3 as amended: the renderer excludes no edge. When it is not loading, the SVG element
  is mounted and some node or edge is given, it hands a copy of every edge of the frame,
  also of one that references a node identifier absent from the node set, to the link
  force. If the link force accepts them, one line and one label are drawn per edge and
  one group per node; if it throws, the render fails with that error.
\<close>

theorem render_keeps_every_edge:
  assumes "\<not> loadingFlag" and "svgMounted" and "propNodes \<noteq> [] \<or> propEdges \<noteq> []"
  shows "(forceLink propNodes propEdges = None \<longrightarrow>
            renderEffect forceLink loadingFlag svgMounted propNodes propEdges
              = Inr (Drawn \<lparr>lineElements = propEdges,
                            linkLabelTexts =
                              map (\<lambda>d. case edgeLabel d of None \<Rightarrow> [] | Some l \<Rightarrow> l) propEdges,
                            nodeElements = propNodes\<rparr>))
       \<and> (\<forall>err. forceLink propNodes propEdges = Some err \<longrightarrow>
            renderEffect forceLink loadingFlag svgMounted propNodes propEdges = Inl err)"
  using assms by (auto simp: renderEffect_def)

theorem render_keeps_every_edge_witness:
  "renderEffect forceLinkById False True [sampleNode ''n1'', sampleNode ''n2'']
       [sampleEdge ''n1'' ''n2'']
     = Inr (Drawn \<lparr>lineElements = [sampleEdge ''n1'' ''n2''], linkLabelTexts = [''next''],
                   nodeElements = [sampleNode ''n1'', sampleNode ''n2'']\<rparr>)
   \<and> renderEffect forceLinkById False True [sampleNode ''n1'']
       [sampleEdge ''n1'' ''n1'', sampleEdge ''n1'' ''n2'']
     = Inl (LibraryError ''node not found: n2'')"
  using render_keeps_every_edge [of False True "[sampleNode ''n1'', sampleNode ''n2'']"
      "[sampleEdge ''n1'' ''n2'']" forceLinkById]
    render_keeps_every_edge [of False True "[sampleNode ''n1'']"
      "[sampleEdge ''n1'' ''n1'', sampleEdge ''n1'' ''n2'']" forceLinkById]
  by (simp add: forceLinkById_def sampleNode_def sampleEdge_def)

section \<open>Play, pause and automatic advancement\<close>




text \<open>
  C5: in every state the application reaches, at most one advancement timer is pending.
  While playing (which in such a state means the cursor is below the last index) exactly
  one is pending, with the delay of 1500 ms; when it fires the cursor advances by exactly
  one, and playing stays true, with a new timer of 1500 ms armed in place of the old one,
  exactly if the new cursor is still below the last index: reaching the last index sets
  playing to false and leaves no timer. Whatever event changes the cursor, no timer that
  was pending before it is pending after it.
\<close>

theorem playback_timer:
  assumes "reachable s"
  shows "length (timers s) \<le> 1
    \<and> (isPlaying s \<longrightarrow>
         (\<exists>t. timers s = [(t, 1500)]
            \<and> currentFrameIndex (handle (TimerFired t) s) = currentFrameIndex s + 1
            \<and> (isPlaying (handle (TimerFired t) s)
                 \<longleftrightarrow> currentFrameIndex s + 1 < framesLength (analysis s) - 1)
            \<and> (isPlaying (handle (TimerFired t) s)
                 \<longrightarrow> (\<exists>t'. t' \<noteq> t \<and> timers (handle (TimerFired t) s) = [(t', 1500)]))
            \<and> (\<not> isPlaying (handle (TimerFired t) s)
                 \<longrightarrow> timers (handle (TimerFired t) s) = [])))
    \<and> (\<forall>e. currentFrameIndex (handle e s) \<noteq> currentFrameIndex s
           \<longrightarrow> fst ` set (timers s) \<inter> fst ` set (timers (handle e s)) = {})"
proof (intro conjI impI allI)
  from assms have inv: "playbackInvariant s"
    by (rule reachable_invariant)
  then have bound: "set (timers s) \<subseteq> {(lastTimerId s, 1500)}"
    by (cases "isPlaying s") (simp_all add: playbackInvariant_def)
  from inv show "length (timers s) \<le> 1"
    by (cases "isPlaying s") (simp_all add: playbackInvariant_def)
  {
    fix e
    assume "currentFrameIndex (handle e s) \<noteq> currentFrameIndex s"
    with inv have "set (timers (handle e s)) \<subseteq> {(Suc (lastTimerId s), 1500)}"
      by (rule handle_cancels)
    with bound show "fst ` set (timers s) \<inter> fst ` set (timers (handle e s)) = {}"
      by fastforce
  }
  {
    assume playing: "isPlaying s"
    let ?t = "lastTimerId s"
    let ?s' = "handle (TimerFired ?t) s"
    note fire = timer_fires_while_playing [OF inv playing]
    have "reachable ?s'"
      using assms by (rule reachable.event) simp
    then have inv': "playbackInvariant ?s'"
      by (rule reachable_invariant)
    from fire(2) inv have "set (timers ?s') \<subseteq> {(Suc ?t, 1500)}"
      by (intro handle_cancels) simp_all
    with inv' have rearmed: "isPlaying ?s' \<longrightarrow> timers ?s' = [(Suc ?t, 1500)]"
      by (auto simp: playbackInvariant_def)
    from inv' have idle: "\<not> isPlaying ?s' \<longrightarrow> timers ?s' = []"
      by (simp add: playbackInvariant_def)
    from fire rearmed idle
    show "\<exists>t. timers s = [(t, 1500)]
            \<and> currentFrameIndex (handle (TimerFired t) s) = currentFrameIndex s + 1
            \<and> (isPlaying (handle (TimerFired t) s)
                 \<longleftrightarrow> currentFrameIndex s + 1 < framesLength (analysis s) - 1)
            \<and> (isPlaying (handle (TimerFired t) s)
                 \<longrightarrow> (\<exists>t'. t' \<noteq> t \<and> timers (handle (TimerFired t) s) = [(t', 1500)]))
            \<and> (\<not> isPlaying (handle (TimerFired t) s)
                 \<longrightarrow> timers (handle (TimerFired t) s) = [])"
      by (intro exI [of _ ?t]) auto
  }
qed

theorem playback_timer_witness:
  "reachable (playing 3) \<and> isPlaying (playing 3) \<and> length (timers (playing 3)) \<le> 1
   \<and> (\<exists>t. timers (playing 3) = [(t, 1500)]
        \<and> currentFrameIndex (handle (TimerFired t) (playing 3)) = 1
        \<and> isPlaying (handle (TimerFired t) (playing 3)))
   \<and> currentFrameIndex (handle Next (playing 3)) \<noteq> currentFrameIndex (playing 3)
   \<and> fst ` set (timers (playing 3)) \<inter> fst ` set (timers (handle Next (playing 3))) = {}"
proof -
  note facts = playback_timer [OF reachable_playing, of 3]
  have p: "isPlaying (playing 3)" and c: "currentFrameIndex (playing 3) = 0"
    and n: "framesLength (analysis (playing 3)) = 3"
    by (simp_all add: playing_fields framesLength_simps frames_sampleAnalysis)
  have moved: "currentFrameIndex (handle Next (playing 3)) \<noteq> currentFrameIndex (playing 3)"
    by (simp add: dispatch_keeps handleNext_def playing_fields frames_sampleAnalysis)
  from facts have "length (timers (playing 3)) \<le> 1"
    by (rule conjunct1)
  moreover from facts p c n
  have "\<exists>t. timers (playing 3) = [(t, 1500)]
        \<and> currentFrameIndex (handle (TimerFired t) (playing 3)) = 1
        \<and> isPlaying (handle (TimerFired t) (playing 3))"
    by auto
  moreover from facts moved
  have "fst ` set (timers (playing 3)) \<inter> fst ` set (timers (handle Next (playing 3))) = {}"
    by blast
  ultimately show ?thesis
    using reachable_playing [of 3] p moved by blast
qed

text \<open>
  C9: in every state the application reaches (the playback effect has run), playing
  implies that an analysis with a non-empty frame sequence is loaded and the cursor is
  strictly below the last index. In particular \<open>togglePlay\<close> with no analysis, or with an
  empty or single-frame sequence, called with a cursor that is not negative, sets the
  cursor to 0 and playing does not remain true.
\<close>

theorem playing_only_before_last_frame:
  "(reachable s \<longrightarrow> isPlaying s \<longrightarrow>
      (\<exists>a. analysis s = Some a \<and> frames a \<noteq> []
         \<and> currentFrameIndex s < int (length (frames a)) - 1))
   \<and> (0 \<le> currentFrameIndex s \<longrightarrow>
        (analysis s = None \<or> (\<exists>a. analysis s = Some a \<and> length (frames a) \<le> 1)) \<longrightarrow>
        currentFrameIndex (handle TogglePlay s) = 0 \<and> \<not> isPlaying (handle TogglePlay s))"
proof (intro conjI impI)
  assume "reachable s" and "isPlaying s"
  then have "0 \<le> currentFrameIndex s" and "shouldSchedule s"
    using reachable_invariant [of s] by (simp_all add: playbackInvariant_def)
  then show "\<exists>a. analysis s = Some a \<and> frames a \<noteq> []
         \<and> currentFrameIndex s < int (length (frames a)) - 1"
    by (auto simp: shouldSchedule_def framesLength_def)
next
  assume nonneg: "0 \<le> currentFrameIndex s"
    and short: "analysis s = None \<or> (\<exists>a. analysis s = Some a \<and> length (frames a) \<le> 1)"
  then have len: "framesLength (analysis s) \<le> 1"
    by (auto simp: framesLength_def)
  with nonneg have t: "togglePlay s = s\<lparr>currentFrameIndex := 0, isPlaying := \<not> isPlaying s\<rparr>"
    by (simp add: togglePlay_at_end)
  show "currentFrameIndex (handle TogglePlay s) = 0"
    by (simp add: dispatch_togglePlay settle_keeps t)
  from len show "\<not> isPlaying (handle TogglePlay s)"
    by (simp add: dispatch_togglePlay settle_isPlaying shouldSchedule_def t)
qed

theorem playing_only_before_last_frame_witness:
  "reachable (playing 3) \<and> isPlaying (playing 3)
   \<and> (\<exists>a. analysis (playing 3) = Some a \<and> frames a \<noteq> []
        \<and> currentFrameIndex (playing 3) < int (length (frames a)) - 1)
   \<and> 0 \<le> currentFrameIndex (loaded 1) \<and> analysis (loaded 1) = Some (sampleAnalysis 1)
   \<and> length (frames (sampleAnalysis 1)) \<le> 1
   \<and> currentFrameIndex (handle TogglePlay (loaded 1)) = 0
   \<and> \<not> isPlaying (handle TogglePlay (loaded 1))
   \<and> analysis (initialState 0) = None
   \<and> currentFrameIndex (handle TogglePlay (initialState 0)) = 0
   \<and> \<not> isPlaying (handle TogglePlay (initialState 0))"
  using playing_only_before_last_frame [of "playing 3"]
    playing_only_before_last_frame [of "loaded 1"]
    playing_only_before_last_frame [of "initialState 0"]
    reachable_playing [of 3]
  by (simp add: playing_fields loaded_fields frames_sampleAnalysis) (simp add: initialState_def)

end
